theory Spec2Isabelle
  imports Complex_Main "HOL-Library.AList" "HOL-Library.Log_Nat"
begin

section \<open>Network quality classification (getNetworkInfo)\<close>

text \<open>
  Source: src/lib/network-optimizer.ts, lines 2-68.
  JavaScript numbers are modelled as rationals; the classification only compares them
  with constants, and the \<open>||\<close> defaults replace every falsy reading (undefined, 0, NaN),
  so no arithmetic on them takes place.  A field of the browser's connection object that
  is undefined is \<open>None\<close>.
\<close>

datatype NetworkType = Slow2g | TwoG | ThreeG | FourG | Unknown

datatype ConnectionQuality = Poor | Good | Excellent

record NetworkInfo =
  type :: NetworkType
  quality :: ConnectionQuality
  effectiveType :: string
  downlink :: rat
  rtt :: rat

text \<open>The object \<open>navigator.connection\<close>, as far as getNetworkInfo reads it.\<close>

record Connection =
  conn_effectiveType :: "string option"
  conn_downlink :: "rat option"
  conn_rtt :: "rat option"

text \<open>\<open>s || d\<close> on a string that may be undefined: the empty string is falsy.\<close>

definition str_or :: "string option \<Rightarrow> string \<Rightarrow> string" where
  "str_or v d = (case v of None \<Rightarrow> d | Some s \<Rightarrow> if s = [] then d else s)"

text \<open>\<open>x || d\<close> on a number that may be undefined: 0 is falsy.\<close>

definition num_or :: "rat option \<Rightarrow> rat \<Rightarrow> rat" where
  "num_or v d = (case v of None \<Rightarrow> d | Some x \<Rightarrow> if x = 0 then d else x)"

text \<open>
  The argument is \<open>None\<close> when \<open>navigator\<close> is undefined or has no \<open>connection\<close>
  (lines 23-31); otherwise the switch of lines 41-61 and the RTT adjustment of
  lines 64-65 run.
\<close>

definition getNetworkInfo :: "Connection option \<Rightarrow> NetworkInfo" where
  "getNetworkInfo nav =
     (case nav of
        None \<Rightarrow>
          \<lparr>type = Unknown, quality = Good, effectiveType = ''unknown'',
           downlink = 10, rtt = 100\<rparr>
      | Some connection \<Rightarrow>
          (let et = str_or (conn_effectiveType connection) ''unknown'';
               dl = num_or (conn_downlink connection) 10;
               rt = num_or (conn_rtt connection) 100;
               (ty, q) =
                 (if et = ''slow-2g'' then (Slow2g, Poor)
                  else if et = ''2g'' then (TwoG, Poor)
                  else if et = ''3g'' then (ThreeG, if dl < 3 / 2 then Poor else Good)
                  else if et = ''4g'' then (FourG, if dl < 5 then Good else Excellent)
                  else (Unknown, Good));
               q' = (if rt > 2000 then Poor
                     else if rt > 1000 \<and> q \<noteq> Poor then Good
                     else q)
           in \<lparr>type = ty, quality = q', effectiveType = et, downlink = dl, rtt = rt\<rparr>))"

text \<open>A sample (effectiveType, downlink, rtt) read from a present connection object.\<close>

definition sample :: "string \<Rightarrow> rat \<Rightarrow> rat \<Rightarrow> Connection option" where
  "sample et dl rt =
     Some \<lparr>conn_effectiveType = Some et, conn_downlink = Some dl, conn_rtt = Some rt\<rparr>"

section \<open>Retry with exponential backoff (retryWithBackoff)\<close>

text \<open>
  Source: src/lib/network-optimizer.ts, lines 132-152.
  The awaited operation \<open>fn\<close> is a step on a world state \<open>'s\<close> that either throws
  (\<open>Inl e\<close>) or resolves (\<open>Inr v\<close>).  The effects of the loop are kept in the result: the
  world after the last call, the number of calls of \<open>fn\<close> and the delays slept.
  \<open>Math.random()\<close> is the parameter \<open>random\<close>, indexed by the attempt.
  The variable \<open>lastError\<close> is declared without a value, so it is \<open>None\<close> (undefined)
  until the first catch; a rejection carries \<open>lastError\<close> as it is.
\<close>

record ('s, 'r) RetryRun =
  outcome :: 'r
  world :: 's
  calls :: nat
  sleeps :: "rat list"

function retry_loop ::
  "('s \<Rightarrow> ('e + 'a) \<times> 's) \<Rightarrow> int \<Rightarrow> rat \<Rightarrow> (nat \<Rightarrow> rat) \<Rightarrow>
   int \<Rightarrow> 'e option \<Rightarrow> 's \<Rightarrow> nat \<Rightarrow> rat list \<Rightarrow> ('s, 'e option + 'a) RetryRun" where
  "retry_loop fn maxRetries baseDelay random attempt lastError s n ds =
     (if attempt \<le> maxRetries then
        (case fn s of
           (Inr v, s') \<Rightarrow> \<lparr>outcome = Inr v, world = s', calls = Suc n, sleeps = ds\<rparr>
         | (Inl e, s') \<Rightarrow>
             if attempt = maxRetries
             then \<lparr>outcome = Inl (Some e), world = s', calls = Suc n, sleeps = ds\<rparr>
             else retry_loop fn maxRetries baseDelay random (attempt + 1) (Some e) s' (Suc n)
                    (ds @ [baseDelay * 2 ^ nat attempt + random (nat attempt) * 1000]))
      else \<lparr>outcome = Inl lastError, world = s, calls = n, sleeps = ds\<rparr>)"
  by pat_completeness auto
termination
  by (relation "measure (\<lambda>(fn, maxRetries, baseDelay, random, attempt, lastError, s, n, ds).
        nat (maxRetries + 1 - attempt))") auto

definition retryWithBackoff ::
  "('s \<Rightarrow> ('e + 'a) \<times> 's) \<Rightarrow> int \<Rightarrow> rat \<Rightarrow> (nat \<Rightarrow> rat) \<Rightarrow> 's \<Rightarrow>
   ('s, 'e option + 'a) RetryRun" where
  "retryWithBackoff fn maxRetries baseDelay random s =
     retry_loop fn maxRetries baseDelay random 0 None s 0 []"

text \<open>The world before attempt number \<open>i\<close> (counted from 0), when every call is made.\<close>

primrec world_before :: "('s \<Rightarrow> ('e + 'a) \<times> 's) \<Rightarrow> nat \<Rightarrow> 's \<Rightarrow> 's" where
  "world_before fn 0 s = s"
| "world_before fn (Suc i) s = world_before fn i (snd (fn s))"

section \<open>The bounded cache with expiry (DataCache)\<close>

text \<open>
  Source: src/lib/network-optimizer.ts, lines 177-226.
  A JavaScript \<open>Map\<close> iterates in insertion order, and writing an existing key keeps
  the key's place: it is an association list with \<open>AList.update\<close> (replace in place,
  else append) and \<open>AList.delete\<close>.  \<open>Date.now()\<close> is the argument \<open>now\<close>, in
  milliseconds.
\<close>

record 'a CacheEntry =
  data :: 'a
  timestamp :: int
  ttl :: int

record 'a DataCache =
  cache :: "(string \<times> 'a CacheEntry) list"
  maxSize :: int

text \<open>The constructor; \<open>new DataCache()\<close> is \<open>new_DataCache 100\<close>.\<close>

definition new_DataCache :: "int \<Rightarrow> 'a DataCache" where
  "new_DataCache n = \<lparr>cache = [], maxSize = n\<rparr>"

text \<open>
  Lines 195-196: \<open>cache.delete(cache.keys().next().value)\<close>.  On an empty map the key
  read is undefined, which is no key of the map, and nothing is deleted.
\<close>

definition delete_oldest :: "(string \<times> 'v) list \<Rightarrow> (string \<times> 'v) list" where
  "delete_oldest m = (case m of [] \<Rightarrow> [] | (oldestKey, _) # _ \<Rightarrow> AList.delete oldestKey m)"

definition cache_size :: "'a DataCache \<Rightarrow> int" where
  "cache_size c = int (length (cache c))"

definition cache_set :: "'a DataCache \<Rightarrow> string \<Rightarrow> 'a \<Rightarrow> int \<Rightarrow> int \<Rightarrow> 'a DataCache" where
  "cache_set c key d t now =
     (let m = (if cache_size c \<ge> maxSize c then delete_oldest (cache c) else cache c)
      in c\<lparr>cache := AList.update key \<lparr>data = d, timestamp = now, ttl = t\<rparr> m\<rparr>)"

text \<open>\<open>get\<close> returns the value read (\<open>None\<close> is null) and the cache after the call.\<close>

definition cache_get :: "'a DataCache \<Rightarrow> string \<Rightarrow> int \<Rightarrow> 'a option \<times> 'a DataCache" where
  "cache_get c key now =
     (case map_of (cache c) key of
        None \<Rightarrow> (None, c)
      | Some entry \<Rightarrow>
          if now - timestamp entry > ttl entry
          then (None, c\<lparr>cache := AList.delete key (cache c)\<rparr>)
          else (Some (data entry), c))"

definition cache_clear :: "'a DataCache \<Rightarrow> 'a DataCache" where
  "cache_clear c = c\<lparr>cache := []\<rparr>"

text \<open>A run of \<open>set\<close> calls, each with its key, value, ttl and the clock at the call.\<close>

fun cache_set_all :: "'a DataCache \<Rightarrow> (string \<times> 'a \<times> int \<times> int) list \<Rightarrow> 'a DataCache" where
  "cache_set_all c [] = c"
| "cache_set_all c ((key, d, t, now) # rest) = cache_set_all (cache_set c key d t now) rest"

section \<open>The console\<close>


section \<open>The offline queue (OfflineManager)\<close>

text \<open>
  Source: src/lib/network-optimizer.ts, lines 422-497.  \<open>Date.now()\<close> is an argument of
  the calls that read it.
\<close>

record 'd QueuedUpdate =
  q_key :: string
  q_data :: 'd
  q_timestamp :: int

record 'd OfflineManager =
  isOnline :: bool
  offlineQueue :: "'d QueuedUpdate list"
  maxQueueSize :: int

text \<open>The constructor: \<open>navigator.onLine\<close> is the first argument.\<close>

definition new_OfflineManager :: "bool \<Rightarrow> int \<Rightarrow> 'd OfflineManager" where
  "new_OfflineManager onLine n = \<lparr>isOnline = onLine, offlineQueue = [], maxQueueSize = n\<rparr>"

text \<open>\<open>Array.prototype.shift\<close>: removes the first element; nothing on an empty array.\<close>

definition shift :: "'a list \<Rightarrow> 'a list" where
  "shift q = (case q of [] \<Rightarrow> [] | _ # rest \<Rightarrow> rest)"

text \<open>
  Lines 450-452: \<open>while (offlineQueue.length >= maxQueueSize) offlineQueue.shift()\<close>.
  The loop has no other exit, so a run that never leaves it is the value \<open>None\<close>.
\<close>

partial_function (option) shift_while_full :: "'a list \<Rightarrow> int \<Rightarrow> 'a list option" where
  "shift_while_full q n =
     (if int (length q) \<ge> n then shift_while_full (shift q) n else Some q)"

definition queueUpdate ::
  "'d OfflineManager \<Rightarrow> string \<Rightarrow> 'd \<Rightarrow> int \<Rightarrow> 'd OfflineManager option" where
  "queueUpdate m key d now =
     (if isOnline m then Some m
      else (case shift_while_full (offlineQueue m) (maxQueueSize m) of
              None \<Rightarrow> None
            | Some q \<Rightarrow>
                Some (m\<lparr>offlineQueue := q @ [\<lparr>q_key = key, q_data = d, q_timestamp = now\<rparr>]\<rparr>)))"

definition getQueueSize :: "'d OfflineManager \<Rightarrow> int" where
  "getQueueSize m = int (length (offlineQueue m))"

definition isOffline :: "'d OfflineManager \<Rightarrow> bool" where
  "isOffline m = (\<not> isOnline m)"

text \<open>A run of \<open>queueUpdate\<close> calls (key, data, clock); it stops where a call does not return.\<close>

fun queueUpdate_all ::
  "'d OfflineManager \<Rightarrow> (string \<times> 'd \<times> int) list \<Rightarrow> 'd OfflineManager option" where
  "queueUpdate_all m [] = Some m"
| "queueUpdate_all m ((key, d, now) # rest) =
     (case queueUpdate m key d now of None \<Rightarrow> None | Some m' \<Rightarrow> queueUpdate_all m' rest)"

text \<open>The object pushed at lines 454-458 by a call (key, data) made at the time \<open>now\<close>.\<close>

definition queued :: "string \<times> 'd \<times> int \<Rightarrow> 'd QueuedUpdate" where
  "queued u = (case u of (key, d, now) \<Rightarrow> \<lparr>q_key = key, q_data = d, q_timestamp = now\<rparr>)"






text \<open>The handler of the \<open>offline\<close> event, lines 439-441.\<close>

definition on_offline :: "'d OfflineManager \<Rightarrow> 'd OfflineManager" where
  "on_offline m = m\<lparr>isOnline := False\<rparr>"


section \<open>Debounced batches of writes (BatchUpdateManager)\<close>






text \<open>Lines 403-405: \<open>updates.forEach(([key, data]) => pendingUpdates.set(key, data))\<close>.\<close>

definition requeue :: "(string \<times> 'd) list \<Rightarrow> (string \<times> 'd) list \<Rightarrow> (string \<times> 'd) list" where
  "requeue updates m = fold (\<lambda>(key, d) m'. AList.update key d m') updates m"






section \<open>JavaScript numbers\<close>

text \<open>
  A Number is an IEEE 754 binary64 value: a finite value is the rational it denotes.
  The two zeros are not told apart (they are equal under \<open>===\<close>).
\<close>

datatype jsnum = Num rat | NaN | PosInf | NegInf

text \<open>The nearest integer, a tie going to the even one.\<close>

definition round_half_even :: "rat \<Rightarrow> int" where
  "round_half_even t =
     (let f = \<lfloor>t\<rfloor>; d = t - of_int f
      in if d < 1 / 2 then f else if 1 / 2 < d then f + 1 else if even f then f else f + 1)"

text \<open>For \<open>q > 0\<close>, the integer \<open>k\<close> with \<open>2^k \<le> q < 2^(k+1)\<close>.\<close>

definition ilog2 :: "rat \<Rightarrow> int" where
  "ilog2 q = (if 1 \<le> q then bitlen \<lfloor>q\<rfloor> - 1 else - bitlen (\<lceil>1 / q\<rceil> - 1))"

text \<open>
  The result of an arithmetic operation whose exact value is \<open>q\<close>: \<open>q\<close> rounded to the
  nearest multiple of \<open>2^e\<close>, ties to even, where \<open>2^e\<close> is the spacing of the binary64
  values at \<open>q\<close> (53 significant bits, least exponent -1074); an infinity when the rounded
  value is beyond the largest finite value.
\<close>

definition binary64 :: "rat \<Rightarrow> jsnum" where
  "binary64 q =
     (if q = 0 then Num 0
      else
        (let e = max (- 1074) (ilog2 \<bar>q\<bar> - 52);
             v = of_int (round_half_even (q / 2 powi e)) * 2 powi e
         in if 2 ^ 1024 \<le> \<bar>v\<bar> then (if 0 < q then PosInf else NegInf) else Num v))"

fun js_mul :: "jsnum \<Rightarrow> jsnum \<Rightarrow> jsnum" where
  "js_mul (Num x) (Num y) = binary64 (x * y)"
| "js_mul NaN _ = NaN"
| "js_mul _ NaN = NaN"
| "js_mul (Num x) PosInf = (if x = 0 then NaN else if 0 < x then PosInf else NegInf)"
| "js_mul (Num x) NegInf = (if x = 0 then NaN else if 0 < x then NegInf else PosInf)"
| "js_mul PosInf (Num y) = (if y = 0 then NaN else if 0 < y then PosInf else NegInf)"
| "js_mul NegInf (Num y) = (if y = 0 then NaN else if 0 < y then NegInf else PosInf)"
| "js_mul PosInf PosInf = PosInf"
| "js_mul PosInf NegInf = NegInf"
| "js_mul NegInf PosInf = NegInf"
| "js_mul NegInf NegInf = PosInf"

text \<open>A divisor 0 is taken as positive zero.\<close>

fun js_div :: "jsnum \<Rightarrow> jsnum \<Rightarrow> jsnum" where
  "js_div (Num x) (Num y) =
     (if y = 0 then (if x = 0 then NaN else if 0 < x then PosInf else NegInf)
      else binary64 (x / y))"
| "js_div NaN _ = NaN"
| "js_div _ NaN = NaN"
| "js_div (Num x) PosInf = Num 0"
| "js_div (Num x) NegInf = Num 0"
| "js_div PosInf (Num y) = (if 0 \<le> y then PosInf else NegInf)"
| "js_div NegInf (Num y) = (if 0 \<le> y then NegInf else PosInf)"
| "js_div PosInf PosInf = NaN"
| "js_div PosInf NegInf = NaN"
| "js_div NegInf PosInf = NaN"
| "js_div NegInf NegInf = NaN"

text \<open>
  \<open>Math.round\<close>: the integer nearest to the argument, a tie going up.  The result is
  exact: a binary64 value below \<open>2^52\<close> in magnitude has an integer of at most 53 bits
  next to it, and any other binary64 value is an integer.
\<close>

fun Math_round :: "jsnum \<Rightarrow> jsnum" where
  "Math_round (Num x) = Num (of_int \<lfloor>x + 1 / 2\<rfloor>)"
| "Math_round NaN = NaN"
| "Math_round PosInf = PosInf"
| "Math_round NegInf = NegInf"

text \<open>The condition of \<open>?:\<close> and \<open>||\<close> on a number: 0 and NaN are falsy.\<close>

fun truthy :: "jsnum \<Rightarrow> bool" where
  "truthy (Num x) = (x \<noteq> 0)"
| "truthy NaN = False"
| "truthy PosInf = True"
| "truthy NegInf = True"

section \<open>The bus record codec (compressBusData, decompressBusData)\<close>

text \<open>
  Source: src/lib/network-optimizer.ts, lines 100-129; the fields are those of the type
  \<open>BusData\<close> of src/components/user-tracker.tsx, each of which may be undefined or null.
  A string is a list of code units.
\<close>

datatype 'a nullable = Undefined | Null | Val 'a

record BusData =
  busId :: "string nullable"
  lat :: "jsnum nullable"
  lon :: "jsnum nullable"
  speed :: "jsnum nullable"
  heading :: "jsnum nullable"
  routeName :: "string nullable"
  status :: "string nullable"
  updatedAt :: "jsnum nullable"

record CompressedBus =
  c_id :: "string nullable"
  c_lat :: jsnum
  c_lon :: jsnum
  spd :: "jsnum nullable"
  hdg :: "jsnum nullable"
  sts :: string
  upd :: jsnum

record DecompressedBus =
  d_busId :: "string nullable"
  d_lat :: jsnum
  d_lon :: jsnum
  d_speed :: "jsnum nullable"
  d_heading :: "jsnum nullable"
  d_status :: string
  d_updatedAt :: jsnum

text \<open>The operand of \<open>*\<close> as a number: undefined is NaN, null is 0.\<close>

definition to_number :: "jsnum nullable \<Rightarrow> jsnum" where
  "to_number v = (case v of Undefined \<Rightarrow> NaN | Null \<Rightarrow> Num 0 | Val n \<Rightarrow> n)"

text \<open>\<open>Math.round(v * 1000000) / 1000000\<close>.\<close>

definition round_coordinate :: "jsnum nullable \<Rightarrow> jsnum" where
  "round_coordinate v =
     js_div (Math_round (js_mul (to_number v) (Num 1000000))) (Num 1000000)"

text \<open>\<open>v ? Math.round(v) : null\<close>.\<close>

definition round_or_null :: "jsnum nullable \<Rightarrow> jsnum nullable" where
  "round_or_null v =
     (case v of
        Val n \<Rightarrow> if truthy n then Val (Math_round n) else Null
      | _ \<Rightarrow> Null)"

text \<open>\<open>status?.substring(0, 10) || "unknown"\<close>.\<close>

definition truncate_status :: "string nullable \<Rightarrow> string" where
  "truncate_status v =
     (case v of
        Val s \<Rightarrow> if take 10 s = [] then ''unknown'' else take 10 s
      | _ \<Rightarrow> ''unknown'')"

text \<open>\<open>updatedAt || Date.now()\<close>; the clock is a whole number of milliseconds.\<close>

definition updated_or_now :: "jsnum nullable \<Rightarrow> int \<Rightarrow> jsnum" where
  "updated_or_now v now =
     (case v of Val n \<Rightarrow> if truthy n then n else Num (of_int now) | _ \<Rightarrow> Num (of_int now))"

text \<open>The argument is \<open>None\<close> when \<open>busData\<close> is falsy; \<open>now\<close> is \<open>Date.now()\<close>.\<close>

definition compressBusData :: "int \<Rightarrow> BusData option \<Rightarrow> CompressedBus option" where
  "compressBusData now busData =
     (case busData of
        None \<Rightarrow> None
      | Some b \<Rightarrow>
          Some \<lparr>c_id = busId b,
                c_lat = round_coordinate (lat b),
                c_lon = round_coordinate (lon b),
                spd = round_or_null (speed b),
                hdg = round_or_null (heading b),
                sts = truncate_status (status b),
                upd = updated_or_now (updatedAt b) now\<rparr>)"

definition decompressBusData :: "CompressedBus option \<Rightarrow> DecompressedBus option" where
  "decompressBusData compressedData =
     (case compressedData of
        None \<Rightarrow> None
      | Some c \<Rightarrow>
          Some \<lparr>d_busId = c_id c, d_lat = c_lat c, d_lon = c_lon c,
                d_speed = spd c, d_heading = hdg c,
                d_status = sts c, d_updatedAt = upd c\<rparr>)"

subsection \<open>The round-trip law in the specification's words\<close>

text \<open>
  The record the specification expects back: "r after rounding coordinates to 6
  decimals and numeric fields to integers".  The rounding is that of the decimal
  value, exactly; a coordinate rounded so is stored as the Number nearest to it.  The
  record exists when identifier, coordinates, status and time are present and finite;
  speed and heading may be null.
\<close>

definition round_decimals :: "nat \<Rightarrow> rat \<Rightarrow> rat" where
  "round_decimals k x = of_int \<lfloor>x * 10 ^ k + 1 / 2\<rfloor> / 10 ^ k"

definition round_integer :: "jsnum nullable \<Rightarrow> jsnum nullable" where
  "round_integer v =
     (case v of
        Val (Num x) \<Rightarrow> Val (Num (of_int \<lfloor>x + 1 / 2\<rfloor>))
      | Val n \<Rightarrow> Val n
      | Null \<Rightarrow> Null
      | Undefined \<Rightarrow> Undefined)"

definition spec_rounded :: "BusData \<Rightarrow> DecompressedBus option" where
  "spec_rounded r =
     (case (busId r, lat r, lon r, status r, updatedAt r) of
        (Val b, Val (Num la), Val (Num lo), Val st, Val (Num u)) \<Rightarrow>
          Some \<lparr>d_busId = Val b,
                d_lat = binary64 (round_decimals 6 la), d_lon = binary64 (round_decimals 6 lo),
                d_speed = round_integer (speed r), d_heading = round_integer (heading r),
                d_status = st, d_updatedAt = Num u\<rparr>
      | _ \<Rightarrow> None)"

text \<open>The length of a string field; an absent field has no characters.\<close>

definition field_length :: "string nullable \<Rightarrow> nat" where
  "field_length v = (case v of Val s \<Rightarrow> length s | _ \<Rightarrow> 0)"

definition strings_at_most :: "nat \<Rightarrow> BusData \<Rightarrow> bool" where
  "strings_at_most n r =
     (field_length (busId r) \<le> n \<and> field_length (routeName r) \<le> n \<and>
      field_length (status r) \<le> n)"

text \<open>
  A coordinate within safe precision: times \<open>10^6\<close> it is below \<open>2^28\<close> in magnitude, where
  binary64 values are at most \<open>2^-25\<close> apart, and it is farther than half that spacing
  from every point \<open>n + 1/2\<close> at which the rounding to an integer changes.
\<close>

definition safe_coordinate :: "rat \<Rightarrow> bool" where
  "safe_coordinate x =
     (\<bar>x * 1000000\<bar> < 2 ^ 28 \<and>
      1 / 2 ^ 26 < \<bar>x * 1000000 - (of_int \<lfloor>x * 1000000\<rfloor> + 1 / 2)\<bar>)"

text \<open>
  A speed or heading within safe precision: null, or a finite number other than 0.
\<close>

definition null_or_nonzero :: "jsnum nullable \<Rightarrow> bool" where
  "null_or_nonzero v = (case v of Null \<Rightarrow> True | Val (Num x) \<Rightarrow> x \<noteq> 0 | _ \<Rightarrow> False)"

section \<open>Properties of the network classification\<close>

text \<open>
  C7 (as amended).  For every connection object whose round-trip time reads \<open>rt\<close>: when
  \<open>rt > 2000\<close> the quality is poor, whatever the effective type and the downlink are; when
  \<open>rt\<close> lies in (1000, 2000] a connection that is poor at an unremarkable round-trip time
  (100 ms) stays poor, and every other connection is good, so the only class that changes
  is excellent, which becomes good.
\<close>

theorem rtt_override:
  assumes "conn_rtt c = Some rt"
  shows "(rt > 2000 \<longrightarrow> quality (getNetworkInfo (Some c)) = Poor) \<and>
         (1000 < rt \<and> rt \<le> 2000 \<longrightarrow>
            quality (getNetworkInfo (Some c)) =
              (if quality (getNetworkInfo (Some (c\<lparr>conn_rtt := Some 100\<rparr>))) = Poor
               then Poor else Good))"
  using assms
  by (auto simp: getNetworkInfo_def num_or_def Let_def split: prod.splits)

theorem rtt_override_witness:
  "quality (getNetworkInfo (sample ''4g'' 10 2500)) = Poor \<and>
   quality (getNetworkInfo (sample ''3g'' 1 1500)) = Poor \<and>
   quality (getNetworkInfo (sample ''4g'' 10 1500)) = Good"
proof -
  have a: "quality (getNetworkInfo (sample ''4g'' 10 2500)) = Poor"
    using rtt_override [of "\<lparr>conn_effectiveType = Some ''4g'', conn_downlink = Some 10,
      conn_rtt = Some 2500\<rparr>" 2500]
    by (simp add: sample_def)
  have b: "quality (getNetworkInfo (sample ''3g'' 1 1500)) = Poor"
    using rtt_override [of "\<lparr>conn_effectiveType = Some ''3g'', conn_downlink = Some 1,
      conn_rtt = Some 1500\<rparr>" 1500]
    by (simp add: sample_def getNetworkInfo_def num_or_def str_or_def)
  have c: "quality (getNetworkInfo (sample ''4g'' 10 1500)) = Good"
    using rtt_override [of "\<lparr>conn_effectiveType = Some ''4g'', conn_downlink = Some 10,
      conn_rtt = Some 1500\<rparr>" 1500]
    by (simp add: sample_def getNetworkInfo_def num_or_def str_or_def)
  from a b c show ?thesis by simp
qed

text \<open>
  C7 as stated fails in its second half: at a round-trip time of 1500 ms a 2g connection,
  poor at 100 ms, is not upgraded to good, and a fast 4g connection, excellent at 100 ms,
  is changed to good.
\<close>

theorem rtt_upgrade_counterexample:
  "quality (getNetworkInfo (sample ''2g'' 1 100)) = Poor \<and>
   quality (getNetworkInfo (sample ''2g'' 1 1500)) \<noteq> Good \<and>
   quality (getNetworkInfo (sample ''4g'' 10 100)) = Excellent \<and>
   quality (getNetworkInfo (sample ''4g'' 10 1500)) = Good"
  by (simp add: getNetworkInfo_def sample_def num_or_def str_or_def)

section \<open>Properties of the retry loop\<close>

lemma retry_loop_all_fail:
  assumes "\<forall>s. \<exists>e. fst (fn s) = Inl e"
  shows "attempt \<le> maxRetries \<Longrightarrow> k = nat (maxRetries - attempt) \<Longrightarrow>
     (let r = retry_loop fn maxRetries bd rnd attempt le s n ds in
      calls r = n + k + 1 \<and> world r = snd (fn (world_before fn k s)) \<and>
      outcome r = Inl (Some (projl (fst (fn (world_before fn k s))))))"
proof (induction k arbitrary: attempt le s n ds)
  case 0
  then have eq: "attempt = maxRetries" by simp
  obtain e s' where f: "fn s = (Inl e, s')" using assms by (metis prod.collapse)
  show ?case using eq f by (simp add: Let_def)
next
  case (Suc k)
  then have lt: "attempt < maxRetries" and k: "k = nat (maxRetries - (attempt + 1))" by auto
  obtain e s' where f: "fn s = (Inl e, s')" using assms by (metis prod.collapse)
  have step: "retry_loop fn maxRetries bd rnd attempt le s n ds =
     retry_loop fn maxRetries bd rnd (attempt + 1) (Some e) s' (Suc n)
        (ds @ [bd * 2 ^ nat attempt + rnd (nat attempt) * 1000])"
    using lt f by simp
  from Suc.IH[of "attempt + 1", OF _ k] lt
  show ?case unfolding step using f by (simp add: Let_def)
qed

lemma retry_loop_first_success:
  "(\<forall>i<k. \<exists>e. fst (fn (world_before fn i s)) = Inl e) \<Longrightarrow>
   fst (fn (world_before fn k s)) = Inr v \<Longrightarrow> attempt + int k \<le> maxRetries \<Longrightarrow>
     (let r = retry_loop fn maxRetries bd rnd attempt le s n ds in
      calls r = n + k + 1 \<and> world r = snd (fn (world_before fn k s)) \<and> outcome r = Inr v)"
proof (induction k arbitrary: attempt le s n ds)
  case 0
  then obtain s' where f: "fn s = (Inr v, s')" by (metis prod.collapse world_before.simps(1))
  show ?case using 0 f by (simp add: Let_def)
next
  case (Suc k)
  from Suc.prems(1)[rule_format, of 0] obtain e s' where f: "fn s = (Inl e, s')"
    by (metis prod.collapse world_before.simps(1) zero_less_Suc)
  have lt: "attempt < maxRetries" using Suc.prems(3) by simp
  have step: "retry_loop fn maxRetries bd rnd attempt le s n ds =
     retry_loop fn maxRetries bd rnd (attempt + 1) (Some e) s' (Suc n)
        (ds @ [bd * 2 ^ nat attempt + rnd (nat attempt) * 1000])"
    using lt f by simp
  have p1: "\<forall>i<k. \<exists>e. fst (fn (world_before fn i s')) = Inl e"
    using Suc.prems(1) f by (metis Suc_less_eq snd_conv world_before.simps(2))
  have p2: "fst (fn (world_before fn k s')) = Inr v" using Suc.prems(2) f by simp
  have p3: "attempt + 1 + int k \<le> maxRetries" using Suc.prems(3) by simp
  from Suc.IH[OF p1 p2 p3]
  show ?case unfolding step using f by (simp add: Let_def)
qed

text \<open>
  C6.  Let \<open>maxRetries \<ge> 0\<close>.  If every call of \<open>fn\<close> fails, retryWithBackoff calls it
  exactly \<open>maxRetries + 1\<close> times and rejects with the error of the last call.  If the
  calls number 0 to \<open>k - 1\<close> fail and call number \<open>k \<le> maxRetries\<close> resolves with \<open>v\<close>, the
  result is \<open>v\<close> after exactly \<open>k + 1\<close> calls: no call follows the one that resolved.
\<close>

theorem retry_attempt_count:
  assumes "0 \<le> maxRetries"
  shows "((\<forall>s. \<exists>e. fst (fn s) = Inl e) \<longrightarrow>
           (let r = retryWithBackoff fn maxRetries baseDelay random s;
                final = world_before fn (nat maxRetries) s
            in calls r = nat maxRetries + 1 \<and>
               outcome r = Inl (Some (projl (fst (fn final)))) \<and>
               world r = snd (fn final))) \<and>
         (\<forall>k v. int k \<le> maxRetries \<and>
                (\<forall>i<k. \<exists>e. fst (fn (world_before fn i s)) = Inl e) \<and>
                fst (fn (world_before fn k s)) = Inr v \<longrightarrow>
           (let r = retryWithBackoff fn maxRetries baseDelay random s
            in calls r = k + 1 \<and> outcome r = Inr v \<and>
               world r = snd (fn (world_before fn k s))))"
proof (intro conjI impI allI)
  assume "\<forall>s. \<exists>e. fst (fn s) = Inl e"
  from retry_loop_all_fail[OF this, of 0 maxRetries "nat maxRetries" baseDelay random None s 0 "[]"]
    assms
  show "let r = retryWithBackoff fn maxRetries baseDelay random s;
            final = world_before fn (nat maxRetries) s
        in calls r = nat maxRetries + 1 \<and>
           outcome r = Inl (Some (projl (fst (fn final)))) \<and>
           world r = snd (fn final)"
    by (simp add: retryWithBackoff_def Let_def)
next
  fix k v
  assume h: "int k \<le> maxRetries \<and>
      (\<forall>i<k. \<exists>e. fst (fn (world_before fn i s)) = Inl e) \<and>
      fst (fn (world_before fn k s)) = Inr v"
  then have a: "\<forall>i<k. \<exists>e. fst (fn (world_before fn i s)) = Inl e"
    and b: "fst (fn (world_before fn k s)) = Inr v" and c: "0 + int k \<le> maxRetries"
    by simp_all
  from retry_loop_first_success[OF a b c, of baseDelay random None 0 "[]"]
  show "let r = retryWithBackoff fn maxRetries baseDelay random s
        in calls r = k + 1 \<and> outcome r = Inr v \<and> world r = snd (fn (world_before fn k s))"
    by (simp add: retryWithBackoff_def Let_def)
qed

text \<open>
  With \<open>maxRetries = 2\<close>: an operation that always fails, with the number of the call as
  its error, is called 3 times and the error is that of the third call; an operation
  that fails once and then resolves with 42 is called twice.
\<close>

theorem retry_attempt_count_witness:
  "calls (retryWithBackoff (\<lambda>s::nat. (Inl s :: nat + nat, Suc s)) 2 1000 (\<lambda>_. 0) 0) = 3 \<and>
   outcome (retryWithBackoff (\<lambda>s::nat. (Inl s :: nat + nat, Suc s)) 2 1000 (\<lambda>_. 0) 0)
     = Inl (Some 2) \<and>
   calls (retryWithBackoff (\<lambda>s::nat. (if s < 1 then Inl s else Inr (42::nat), Suc s))
            2 1000 (\<lambda>_. 0) 0) = 2 \<and>
   outcome (retryWithBackoff (\<lambda>s::nat. (if s < 1 then Inl s else Inr (42::nat), Suc s))
            2 1000 (\<lambda>_. 0) 0) = Inr 42"
proof -
  let ?f = "\<lambda>s::nat. (Inl s :: nat + nat, Suc s)"
  let ?g = "\<lambda>s::nat. (if s < 1 then Inl s else Inr (42::nat) :: nat + nat, Suc s)"
  have fails: "\<forall>s. \<exists>e. fst (?f s) = Inl e" by simp
  from retry_attempt_count[of 2 ?f 1000 "\<lambda>_. 0" 0] fails
  have "let r = retryWithBackoff ?f 2 1000 (\<lambda>_. 0) 0;
            final = world_before ?f (nat 2) 0
        in calls r = nat 2 + 1 \<and> outcome r = Inl (Some (projl (fst (?f final)))) \<and>
           world r = snd (?f final)"
    by simp
  then have a: "calls (retryWithBackoff ?f 2 1000 (\<lambda>_. 0) 0) = 3 \<and>
     outcome (retryWithBackoff ?f 2 1000 (\<lambda>_. 0) 0) = Inl (Some 2)"
    by (simp add: Let_def numeral_2_eq_2)
  have pre: "int (Suc 0) \<le> 2 \<and>
      (\<forall>i<Suc 0. \<exists>e. fst (?g (world_before ?g i 0)) = Inl e) \<and>
      fst (?g (world_before ?g (Suc 0) 0)) = Inr 42"
    by simp
  from retry_attempt_count[of 2 ?g 1000 "\<lambda>_. 0" 0, THEN conjunct2, rule_format, OF _ pre]
  have b: "calls (retryWithBackoff ?g 2 1000 (\<lambda>_. 0) 0) = 2 \<and>
     outcome (retryWithBackoff ?g 2 1000 (\<lambda>_. 0) 0) = Inr 42"
    by (simp add: Let_def)
  from a b show ?thesis by simp
qed

text \<open>
  C10.  For every \<open>maxRetries < 0\<close> the loop body is not entered: \<open>fn\<close> is never called,
  nothing is slept, and the call rejects with \<open>lastError\<close> as declared, which is
  undefined (\<open>None\<close>), not an error value.
\<close>

theorem retry_negative_budget:
  "maxRetries < 0 \<Longrightarrow>
   retryWithBackoff fn maxRetries baseDelay random s =
     \<lparr>outcome = Inl None, world = s, calls = 0, sleeps = []\<rparr>"
  by (simp add: retryWithBackoff_def)

theorem retry_negative_budget_witness:
  "retryWithBackoff (\<lambda>s::nat. (Inr (7::nat) :: nat + nat, Suc s)) (- 1) 1000 (\<lambda>_. 0) 0 =
     \<lparr>outcome = Inl None, world = 0, calls = 0, sleeps = []\<rparr>"
  using retry_negative_budget [of "- 1" "\<lambda>s::nat. (Inr (7::nat) :: nat + nat, Suc s)"
      1000 "\<lambda>_. 0" 0]
  by simp

section \<open>Properties of the cache\<close>

lemma keys_update_fresh: "k \<notin> fst ` set m \<Longrightarrow> map fst (AList.update k v m) = map fst m @ [k]"
  by (induction m) auto

lemma keys_update_present: "k \<in> fst ` set m \<Longrightarrow> map fst (AList.update k v m) = map fst m"
  by (induction m) auto

lemma delete_oldest_distinct:
  "distinct (map fst m) \<Longrightarrow> delete_oldest m = tl m"
  by (cases m) (force simp: delete_oldest_def AList.delete_eq filter_id_conv)+

lemma cache_set_keys_fresh:
  assumes "distinct (map fst (cache c))" "key \<notin> fst ` set (cache c)" "1 \<le> maxSize c"
     "cache_size c \<le> maxSize c"
  shows "map fst (cache (cache_set c key d t now)) =
         drop (Suc (length (cache c)) - nat (maxSize c)) (map fst (cache c) @ [key])"
proof (cases "cache_size c \<ge> maxSize c")
  case True
  then have len: "length (cache c) = nat (maxSize c)" using assms(4) by (simp add: cache_size_def)
  then have ne: "cache c \<noteq> []" using assms(3) by auto
  have one: "Suc (length (cache c)) - nat (maxSize c) = Suc 0" using len by simp
  have notin: "key \<notin> fst ` set (tl (cache c))" using assms(2) ne by (auto dest: list.set_sel(2))
  have "map fst (cache (cache_set c key d t now)) = map fst (tl (cache c)) @ [key]"
    using True assms(1) notin by (simp add: cache_set_def delete_oldest_distinct keys_update_fresh)
  also have "\<dots> = drop (Suc 0) (map fst (cache c) @ [key])"
    using ne by (cases "cache c") simp_all
  finally show ?thesis unfolding one .
next
  case False
  then have "length (cache c) < nat (maxSize c)" by (simp add: cache_size_def)
  then show ?thesis using False assms(2)
    by (simp add: cache_set_def keys_update_fresh)
qed

lemma cache_set_maxSize [simp]: "maxSize (cache_set c key d t now) = maxSize c"
  by (simp add: cache_set_def Let_def)

lemma cache_set_all_maxSize [simp]: "maxSize (cache_set_all c ins) = maxSize c"
  by (induction c ins rule: cache_set_all.induct) simp_all

lemma distinct_drop_append: "distinct (xs @ ys) \<Longrightarrow> distinct (drop n xs @ ys)"
  by (auto dest: in_set_dropD)

lemma drop_drop_append:
  assumes "b \<le> length xs" "b > 0 \<longrightarrow> length xs - b = c"
  shows "drop (length (drop b xs) + length ys - c) (drop b xs @ ys) =
         drop (length xs + length ys - c) (xs @ ys)"
proof (cases "b = 0")
  case True then show ?thesis by simp
next
  case False
  with assms have eq: "length xs - b = c" by simp
  have l: "length (drop b xs) + length ys - c = length ys" using eq by simp
  have r: "length xs + length ys - c = length ys + b" using eq assms(1) by simp
  have "drop (length ys) (drop b xs @ ys) = drop (length ys) (drop b (xs @ ys))"
    using assms(1) by simp
  also have "\<dots> = drop (length ys + b) (xs @ ys)" by (rule drop_drop)
  finally show ?thesis unfolding l r .
qed

lemma cache_set_all_keys:
  assumes "1 \<le> maxSize c"
  shows "distinct (map fst (cache c) @ map fst ins) \<Longrightarrow> cache_size c \<le> maxSize c \<Longrightarrow>
     map fst (cache (cache_set_all c ins)) =
       drop (length (cache c) + length ins - nat (maxSize c)) (map fst (cache c) @ map fst ins)"
  using assms
proof (induction c ins rule: cache_set_all.induct)
  case (1 c)
  then show ?case by (simp add: cache_size_def)
next
  case (2 c key d t now rest)
  let ?c' = "cache_set c key d t now"
  let ?L = "map fst (cache c)"
  let ?b = "Suc (length (cache c)) - nat (maxSize c)"
  have d: "distinct ?L" and fresh: "key \<notin> fst ` set (cache c)" using 2(2) by auto
  have keys: "map fst (cache ?c') = drop ?b (?L @ [key])"
    using cache_set_keys_fresh[OF d fresh 2(4) 2(3)] .
  have dist': "distinct (map fst (cache ?c') @ map fst rest)"
  proof -
    have "distinct ((?L @ [key]) @ map fst rest)" using 2(2) by simp
    then show ?thesis unfolding keys by (rule distinct_drop_append)
  qed
  have len': "length (cache ?c') = Suc (length (cache c)) - ?b"
  proof -
    have "length (map fst (cache ?c')) = length (drop ?b (?L @ [key]))" by (simp only: keys)
    also have "\<dots> = length (?L @ [key]) - ?b" by (rule length_drop)
    finally show ?thesis by simp
  qed
  have size': "cache_size ?c' \<le> maxSize ?c'" using len' 2(3,4) by (simp add: cache_size_def)
  have m: "1 \<le> maxSize ?c'" using 2(4) by simp
  have "map fst (cache (cache_set_all ?c' rest)) =
      drop (length (cache ?c') + length rest - nat (maxSize c)) (map fst (cache ?c') @ map fst rest)"
    using 2(1)[OF dist' size' m] by simp
  also have "\<dots> = drop (length (drop ?b (?L @ [key])) + length (map fst rest) - nat (maxSize c)) (drop ?b (?L @ [key]) @ map fst rest)"
    unfolding keys[symmetric] by simp
  also have "\<dots> = drop (length (?L @ [key]) + length (map fst rest) - nat (maxSize c)) ((?L @ [key]) @ map fst rest)"
    using 2(3,4) by (intro drop_drop_append) (auto simp: cache_size_def)
  finally show ?case by simp
qed

lemma cache_set_all_keys_new:
  assumes "1 \<le> n" "distinct (map fst ins)"
  shows "map fst (cache (cache_set_all (new_DataCache n) ins)) =
         drop (length ins - nat n) (map fst ins)"
  using cache_set_all_keys[of "new_DataCache n" ins] assms
  by (simp add: new_DataCache_def cache_size_def)

lemma map_of_absent: "key \<notin> set (map fst m) \<Longrightarrow> map_of m key = None"
  by (simp add: map_of_eq_None_iff)

lemma cache_get_absent: "map_of (cache c) key = None \<Longrightarrow> cache_get c key now = (None, c)"
  by (simp add: cache_get_def)

text \<open>
  C4 (as amended).  For every capacity \<open>n \<ge> 1\<close> and every \<open>k > 0\<close>: after \<open>set\<close> has
  inserted \<open>n + k\<close> distinct keys into a new DataCache of capacity \<open>n\<close>, \<open>size()\<close> is \<open>n\<close>,
  the keys held are the last \<open>n\<close> inserted, in insertion order, the \<open>k\<close> keys inserted first
  are absent (\<open>get\<close> returns null for them at any time), and after each of the insertions
  the size was at most \<open>n\<close>.
\<close>

theorem cache_capacity_invariant:
  assumes "1 \<le> n" "distinct (map fst ins)" "length ins = nat n + k" "0 < k"
  shows "cache_size (cache_set_all (new_DataCache n) ins) = n \<and>
         map fst (cache (cache_set_all (new_DataCache n) ins)) = drop k (map fst ins) \<and>
         (\<forall>key \<in> set (take k (map fst ins)).
            map_of (cache (cache_set_all (new_DataCache n) ins)) key = None \<and>
            (\<forall>now. fst (cache_get (cache_set_all (new_DataCache n) ins) key now) = None)) \<and>
         (\<forall>i \<le> length ins. cache_size (cache_set_all (new_DataCache n) (take i ins)) \<le> n)"
proof -
  let ?c = "cache_set_all (new_DataCache n) ins"
  have k: "length ins - nat n = k" using assms(3) by simp
  have keys: "map fst (cache ?c) = drop k (map fst ins)"
    using cache_set_all_keys_new[OF assms(1,2)] k by simp
  have "length (map fst (cache ?c)) = length (map fst ins) - k" unfolding keys by (rule length_drop)
  then have size: "cache_size ?c = n" using assms(1,3) by (simp add: cache_size_def)
  have absent: "map_of (cache ?c) key = None" if "key \<in> set (take k (map fst ins))" for key
  proof (rule map_of_absent)
    have "set (take k (map fst ins)) \<inter> set (drop k (map fst ins)) = {}"
      using assms(2) by (rule set_take_disj_set_drop_if_distinct) simp
    then show "key \<notin> set (map fst (cache ?c))" using that unfolding keys by auto
  qed
  have pre: "cache_size (cache_set_all (new_DataCache n) (take i ins)) \<le> n" for i
  proof -
    have d: "distinct (map fst (take i ins))" using assms(2) by (simp add: take_map[symmetric])
    have "length (map fst (cache (cache_set_all (new_DataCache n) (take i ins)))) =
          length (drop (length (take i ins) - nat n) (map fst (take i ins)))"
      by (simp only: cache_set_all_keys_new[OF assms(1) d])
    then have "length (cache (cache_set_all (new_DataCache n) (take i ins))) \<le> nat n"
      by simp arith
    then show ?thesis using assms(1) by (simp add: cache_size_def)
  qed
  show ?thesis using size keys absent pre by (simp add: cache_get_absent)
qed

text \<open>Capacity 2 and the keys a, b, c: b and c remain, a is gone.\<close>

theorem cache_capacity_invariant_witness:
  "cache_size (cache_set_all (new_DataCache 2)
      [(''a'', 1::nat, 300000, 0), (''b'', 2, 300000, 1), (''c'', 3, 300000, 2)]) = 2 \<and>
   map fst (cache (cache_set_all (new_DataCache 2)
      [(''a'', 1::nat, 300000, 0), (''b'', 2, 300000, 1), (''c'', 3, 300000, 2)])) = [''b'', ''c''] \<and>
   map_of (cache (cache_set_all (new_DataCache 2)
      [(''a'', 1::nat, 300000, 0), (''b'', 2, 300000, 1), (''c'', 3, 300000, 2)])) ''a'' = None"
  using cache_capacity_invariant[of 2 "[(''a'', 1::nat, 300000, 0), (''b'', 2, 300000, 1), (''c'', 3, 300000, 2)]" 1]
  by simp

text \<open>
  C4 as stated, for every capacity, fails at capacity 0: the test \<open>size >= maxSize\<close> holds
  on the empty map, where nothing can be deleted, and the insertion that follows leaves
  one entry in a cache of capacity 0.
\<close>

theorem cache_capacity_zero_counterexample:
  "cache_size (cache_set_all (new_DataCache 0) [(''k1'', 0::nat, 300000, 0)]) = 1"
  by (simp add: new_DataCache_def cache_set_def cache_size_def delete_oldest_def)

text \<open>
  C9.  In a DataCache whose size equals its capacity, \<open>set(key, ...)\<close> on a key that is
  present deletes the oldest entry before it writes: the map afterwards is the map
  without its oldest entry, updated at \<open>key\<close>.  When \<open>key\<close> is not the oldest key, the
  oldest key is absent afterwards, \<open>key\<close> holds the new entry, and \<open>size()\<close> is the
  capacity minus one.
\<close>

theorem cache_set_at_capacity:
  assumes "distinct (map fst (cache c))" "cache_size c = maxSize c"
    "cache c = (oldest, e0) # rest" "key \<in> fst ` set (cache c)"
  shows "cache (cache_set c key d t now) =
           AList.update key \<lparr>data = d, timestamp = now, ttl = t\<rparr> rest \<and>
         (key \<noteq> oldest \<longrightarrow>
            map_of (cache (cache_set c key d t now)) oldest = None \<and>
            map_of (cache (cache_set c key d t now)) key =
              Some \<lparr>data = d, timestamp = now, ttl = t\<rparr> \<and>
            cache_size (cache_set c key d t now) = maxSize c - 1)"
proof -
  have del: "delete_oldest (cache c) = rest" using assms(1,3) by (simp add: delete_oldest_distinct)
  have eq: "cache (cache_set c key d t now) = AList.update key \<lparr>data = d, timestamp = now, ttl = t\<rparr> rest"
    using assms(2) del by (simp add: cache_set_def)
  { assume ne: "key \<noteq> oldest"
    then have inr: "key \<in> fst ` set rest" using assms(3,4) by auto
    have "oldest \<notin> fst ` set rest" using assms(1,3) by auto
    then have a: "map_of (cache (cache_set c key d t now)) oldest = None"
      unfolding eq using ne by (simp add: update_conv' map_of_eq_None_iff)
    have b: "map_of (cache (cache_set c key d t now)) key = Some \<lparr>data = d, timestamp = now, ttl = t\<rparr>"
      unfolding eq by (simp add: update_conv')
    have "length (map fst (AList.update key \<lparr>data = d, timestamp = now, ttl = t\<rparr> rest)) = length (map fst rest)"
      by (simp only: keys_update_present[OF inr])
    then have c: "cache_size (cache_set c key d t now) = maxSize c - 1"
      using assms(2,3) unfolding eq cache_size_def by simp
    note a b c }
  then show ?thesis using eq by simp
qed

text \<open>Capacity 2 holding a and b: writing b again evicts a and leaves one entry.\<close>

theorem cache_set_at_capacity_witness:
  "cache (cache_set \<lparr>cache = [(''a'', \<lparr>data = 1::nat, timestamp = 0, ttl = 300000\<rparr>),
                               (''b'', \<lparr>data = 2, timestamp = 5, ttl = 300000\<rparr>)], maxSize = 2\<rparr>
             ''b'' 9 300000 10) = [(''b'', \<lparr>data = 9, timestamp = 10, ttl = 300000\<rparr>)] \<and>
   cache_size (cache_set \<lparr>cache = [(''a'', \<lparr>data = 1::nat, timestamp = 0, ttl = 300000\<rparr>),
                               (''b'', \<lparr>data = 2, timestamp = 5, ttl = 300000\<rparr>)], maxSize = 2\<rparr>
             ''b'' 9 300000 10) = 1"
  using cache_set_at_capacity [of
      "\<lparr>cache = [(''a'', \<lparr>data = 1::nat, timestamp = 0, ttl = 300000\<rparr>),
                 (''b'', \<lparr>data = 2, timestamp = 5, ttl = 300000\<rparr>)], maxSize = 2\<rparr>"
      "''a''" "\<lparr>data = 1::nat, timestamp = 0, ttl = 300000\<rparr>"
      "[(''b'', \<lparr>data = 2, timestamp = 5, ttl = 300000\<rparr>)]" "''b''" 9 300000 10]
  by (simp add: cache_size_def)

text \<open>
  C8.  After \<open>set(key, d, t)\<close> at time \<open>ts\<close> the entry carries the timestamp \<open>ts\<close>.  A
  \<open>get(key)\<close> at a time \<open>now\<close> with \<open>now - ts \<le> t\<close> returns \<open>d\<close> and leaves the cache as it
  was, timestamp included; with \<open>now - ts > t\<close> it returns null and deletes the entry.
\<close>

theorem cache_get_expiry:
  "(let c' = cache_set c key d t ts in
     map_of (cache c') key = Some \<lparr>data = d, timestamp = ts, ttl = t\<rparr> \<and>
     (now - ts \<le> t \<longrightarrow> cache_get c' key now = (Some d, c')) \<and>
     (now - ts > t \<longrightarrow>
        cache_get c' key now = (None, c'\<lparr>cache := AList.delete key (cache c')\<rparr>) \<and>
        map_of (cache (snd (cache_get c' key now))) key = None))"
proof -
  have m: "map_of (cache (cache_set c key d t ts)) key = Some \<lparr>data = d, timestamp = ts, ttl = t\<rparr>"
    by (simp add: cache_set_def Let_def update_conv')
  show ?thesis unfolding Let_def using m
    by (simp add: cache_get_def delete_conv')
qed

text \<open>
  A value set with ttl 100 at time 1000 is present at 1050 and absent, and deleted, at
  1150; it is absent at 1150 also after the read at 1050, which did not renew it.
\<close>

theorem cache_get_expiry_witness:
  "cache_get (cache_set (new_DataCache 100) ''bus_1'' (7::nat) 100 1000) ''bus_1'' 1050 =
     (Some 7, cache_set (new_DataCache 100) ''bus_1'' 7 100 1000) \<and>
   fst (cache_get (cache_set (new_DataCache 100) ''bus_1'' (7::nat) 100 1000) ''bus_1'' 1150) = None \<and>
   cache (snd (cache_get (cache_set (new_DataCache 100) ''bus_1'' (7::nat) 100 1000) ''bus_1'' 1150)) = [] \<and>
   fst (cache_get (snd (cache_get (cache_set (new_DataCache 100) ''bus_1'' (7::nat) 100 1000)
      ''bus_1'' 1050)) ''bus_1'' 1150) = None"
proof -
  let ?c = "cache_set (new_DataCache 100) ''bus_1'' (7::nat) 100 1000"
  have c: "?c = \<lparr>cache = [(''bus_1'', \<lparr>data = 7, timestamp = 1000, ttl = 100\<rparr>)], maxSize = 100\<rparr>"
    by (simp add: cache_set_def new_DataCache_def cache_size_def)
  have a: "cache_get ?c ''bus_1'' 1050 = (Some 7, ?c)"
    using cache_get_expiry [of "new_DataCache 100" "''bus_1''" "7::nat" 100 1000 1050]
    by (simp add: Let_def)
  have b: "cache_get ?c ''bus_1'' 1150 = (None, ?c\<lparr>cache := AList.delete ''bus_1'' (cache ?c)\<rparr>)"
    using cache_get_expiry [of "new_DataCache 100" "''bus_1''" "7::nat" 100 1000 1150]
    by (simp add: Let_def)
  have d: "cache (?c\<lparr>cache := AList.delete ''bus_1'' (cache ?c)\<rparr>) = []"
    unfolding c by (simp add: AList.delete_eq)
  from a b d show ?thesis by simp
qed

section \<open>Properties of the offline queue\<close>

lemma shift_while_full_returns:
  "1 \<le> n \<Longrightarrow> shift_while_full q n = Some (drop (Suc (length q) - nat n) q)"
proof (induction q)
  case Nil
  then show ?case by (subst shift_while_full.simps) simp
next
  case (Cons x xs)
  show ?case
  proof (cases "int (length (x # xs)) \<ge> n")
    case True
    then have "Suc (length (x # xs)) - nat n = Suc (Suc (length xs) - nat n)"
      using Cons.prems by simp
    then show ?thesis using True Cons
      by (subst shift_while_full.simps) (simp add: shift_def)
  next
    case False
    then have "Suc (length (x # xs)) - nat n = 0" by simp
    then show ?thesis using False
      by (subst shift_while_full.simps) simp
  qed
qed

lemma shift_while_full_diverges:
  assumes "n \<le> 0"
  shows "shift_while_full q n = None"
proof (cases "shift_while_full q n")
  case None then show ?thesis .
next
  case (Some y)
  have "1 \<le> n"
  proof (rule shift_while_full.raw_induct[where P = "\<lambda>q n y. 1 \<le> n", OF _ Some])
    fix f and q :: "'a list" and n y
    assume "\<And>q n y. f q n = Some y \<Longrightarrow> 1 \<le> n"
      and "(if n \<le> int (length q) then f (shift q) n else Some q) = Some y"
    then show "1 \<le> n" by (auto split: if_splits)
  qed
  with assms show ?thesis by simp
qed

lemma queueUpdate_offline:
  assumes "\<not> isOnline m" "1 \<le> maxQueueSize m"
  shows "queueUpdate m key d now =
    Some (m\<lparr>offlineQueue := drop (Suc (length (offlineQueue m)) - nat (maxQueueSize m))
              (offlineQueue m @ [queued (key, d, now)])\<rparr>)"
proof -
  have "Suc (length (offlineQueue m)) - nat (maxQueueSize m) \<le> length (offlineQueue m)"
    using assms(2) by simp
  then show ?thesis using assms
    by (simp add: queueUpdate_def shift_while_full_returns queued_def)
qed

lemma queueUpdate_all_offline:
  "\<not> isOnline m \<Longrightarrow> 1 \<le> maxQueueSize m \<Longrightarrow> getQueueSize m \<le> maxQueueSize m \<Longrightarrow>
   queueUpdate_all m ups =
     Some (m\<lparr>offlineQueue :=
       drop (length (offlineQueue m) + length ups - nat (maxQueueSize m))
            (offlineQueue m @ map queued ups)\<rparr>)"
proof (induction m ups rule: queueUpdate_all.induct)
  case (1 m)
  then show ?case by (simp add: getQueueSize_def)
next
  case (2 m key d now rest)
  let ?q = "offlineQueue m"
  let ?b = "Suc (length ?q) - nat (maxQueueSize m)"
  let ?m' = "m\<lparr>offlineQueue := drop ?b (?q @ [queued (key, d, now)])\<rparr>"
  have step: "queueUpdate m key d now = Some ?m'"
    using queueUpdate_offline[OF 2(2,3)] .
  have len: "length (drop ?b (?q @ [queued (key, d, now)])) = length (?q @ [queued (key, d, now)]) - ?b"
    by (rule length_drop)
  have sz: "getQueueSize ?m' \<le> maxQueueSize ?m'"
    using 2(3,4) len by (simp add: getQueueSize_def del: drop_append) 
  have "queueUpdate_all ?m' rest =
     Some (?m'\<lparr>offlineQueue :=
       drop (length (offlineQueue ?m') + length rest - nat (maxQueueSize ?m'))
            (offlineQueue ?m' @ map queued rest)\<rparr>)"
    using 2(1)[OF step] 2(2,3) sz by simp
  moreover have "drop (length (drop ?b (?q @ [queued (key, d, now)])) + length (map queued rest) - nat (maxQueueSize m))
            (drop ?b (?q @ [queued (key, d, now)]) @ map queued rest) =
      drop (length (?q @ [queued (key, d, now)]) + length (map queued rest) - nat (maxQueueSize m)) ((?q @ [queued (key, d, now)]) @ map queued rest)"
    using 2(3,4) by (intro drop_drop_append) (auto simp: getQueueSize_def)
  ultimately show ?case using step by (simp del: drop_append)
qed

lemma queueUpdate_offline_size:
  assumes "\<not> isOnline m" "1 \<le> maxQueueSize m"
  shows "\<exists>m'. queueUpdate m key d now = Some m' \<and> getQueueSize m' \<le> maxQueueSize m"
proof -
  let ?q = "offlineQueue m @ [queued (key, d, now)]"
  let ?b = "Suc (length (offlineQueue m)) - nat (maxQueueSize m)"
  have "length (drop ?b ?q) = length ?q - ?b" by (rule length_drop)
  then have "int (length (drop ?b ?q)) \<le> maxQueueSize m" using assms(2) by simp
  then show ?thesis using queueUpdate_offline[OF assms, of key d now]
    by (simp add: getQueueSize_def del: drop_append)
qed

text \<open>
  C5 (as amended).  Let the capacity \<open>n\<close> be at least 1.  While online \<open>queueUpdate\<close> changes
  nothing.  While offline it returns, appending the new item: to the queue as it is when
  the queue holds fewer than \<open>n\<close> items, and to the queue without its first (oldest) item
  when it holds \<open>n\<close>; the size after the call is at most \<open>n\<close>.  Enqueuing \<open>n + 1\<close> items
  into a new offline manager leaves \<open>n\<close> items, namely all but the first enqueued.
\<close>

theorem offline_queue_bound:
  fixes m :: "'d OfflineManager" and ups :: "(string \<times> 'd \<times> int) list"
  assumes "1 \<le> n" "maxQueueSize m = n"
  shows "(isOnline m \<longrightarrow> queueUpdate m key d now = Some m) \<and>
         (\<not> isOnline m \<and> getQueueSize m < n \<longrightarrow>
            queueUpdate m key d now =
              Some (m\<lparr>offlineQueue := offlineQueue m @ [queued (key, d, now)]\<rparr>)) \<and>
         (\<not> isOnline m \<and> getQueueSize m = n \<longrightarrow>
            queueUpdate m key d now =
              Some (m\<lparr>offlineQueue := tl (offlineQueue m) @ [queued (key, d, now)]\<rparr>)) \<and>
         (\<not> isOnline m \<longrightarrow>
            (\<exists>m'. queueUpdate m key d now = Some m' \<and> getQueueSize m' \<le> n)) \<and>
         (length ups = nat n + 1 \<longrightarrow>
            (\<exists>m'. queueUpdate_all (new_OfflineManager False n) ups = Some m' \<and>
                  getQueueSize m' = n \<and> offlineQueue m' = tl (map queued ups)))"
proof (intro conjI impI)
  assume "isOnline m"
  then show "queueUpdate m key d now = Some m" by (simp add: queueUpdate_def)
next
  assume h: "\<not> isOnline m \<and> getQueueSize m < n"
  then have "Suc (length (offlineQueue m)) - nat (maxQueueSize m) = 0"
    using assms by (simp add: getQueueSize_def, linarith)
  then show "queueUpdate m key d now =
      Some (m\<lparr>offlineQueue := offlineQueue m @ [queued (key, d, now)]\<rparr>)"
    using queueUpdate_offline[of m key d now] h assms by simp
next
  assume h: "\<not> isOnline m \<and> getQueueSize m = n"
  then have one: "Suc (length (offlineQueue m)) - nat (maxQueueSize m) = Suc 0"
    using assms by (auto simp: getQueueSize_def)
  have ne: "offlineQueue m \<noteq> []" using h assms by (auto simp: getQueueSize_def)
  have "drop (Suc 0) (offlineQueue m @ [queued (key, d, now)]) =
        tl (offlineQueue m) @ [queued (key, d, now)]"
    using ne by (cases "offlineQueue m") simp_all
  then show "queueUpdate m key d now =
      Some (m\<lparr>offlineQueue := tl (offlineQueue m) @ [queued (key, d, now)]\<rparr>)"
    using queueUpdate_offline[of m key d now] h assms one by (simp del: drop_append)
next
  assume "\<not> isOnline m"
  then show "\<exists>m'. queueUpdate m key d now = Some m' \<and> getQueueSize m' \<le> n"
    using queueUpdate_offline_size[of m key d now] assms by simp
next
  assume len: "length ups = nat n + 1"
  let ?m0 = "new_OfflineManager False n :: 'd OfflineManager"
  have ne: "ups \<noteq> []" using len by auto
  have "queueUpdate_all ?m0 ups =
     Some (?m0\<lparr>offlineQueue :=
       drop (length (offlineQueue ?m0) + length ups - nat (maxQueueSize ?m0))
            (offlineQueue ?m0 @ map queued ups)\<rparr>)"
    using assms(1) by (intro queueUpdate_all_offline) (simp_all add: new_OfflineManager_def getQueueSize_def)
  moreover have "drop (length ups - nat n) (map queued ups) = tl (map queued ups)"
    using len ne by (cases ups) simp_all
  ultimately show "\<exists>m'. queueUpdate_all ?m0 ups = Some m' \<and>
                  getQueueSize m' = n \<and> offlineQueue m' = tl (map queued ups)"
    using len assms(1) by (simp add: new_OfflineManager_def getQueueSize_def)
qed

text \<open>Capacity 2: online nothing is queued; offline a, b, c leave b and c.\<close>

theorem offline_queue_bound_witness:
  "queueUpdate (new_OfflineManager True 2) ''a'' (1::nat) 10 = Some (new_OfflineManager True 2) \<and>
   map_option offlineQueue (queueUpdate_all (new_OfflineManager False 2)
       [(''a'', 1::nat, 10), (''b'', 2, 20), (''c'', 3, 30)]) =
     Some [queued (''b'', 2, 20), queued (''c'', 3, 30)] \<and>
   map_option getQueueSize (queueUpdate_all (new_OfflineManager False 2)
       [(''a'', 1::nat, 10), (''b'', 2, 20), (''c'', 3, 30)]) = Some 2"
proof -
  have a: "queueUpdate (new_OfflineManager True 2) ''a'' (1::nat) 10 = Some (new_OfflineManager True 2)"
    using offline_queue_bound [of 2 "new_OfflineManager True 2" "''a''" "1::nat" 10 "[]"]
    by (simp add: new_OfflineManager_def)
  obtain m' where "queueUpdate_all (new_OfflineManager False 2)
        [(''a'', 1::nat, 10), (''b'', 2, 20), (''c'', 3, 30)] = Some m'"
      "getQueueSize m' = 2"
      "offlineQueue m' = tl (map queued [(''a'', 1::nat, 10), (''b'', 2, 20), (''c'', 3, 30)])"
    using offline_queue_bound [of 2 "new_OfflineManager True 2" "''a''" "1::nat" 10
        "[(''a'', 1::nat, 10), (''b'', 2, 20), (''c'', 3, 30)]"]
    by (auto simp: new_OfflineManager_def)
  with a show ?thesis by simp
qed

text \<open>
  C5 as stated fails at capacity 0: offline, the loop \<open>while (length >= 0) shift()\<close> never
  ends, so enqueuing \<open>capacity + 1 = 1\<close> item does not return.
\<close>

theorem offline_queue_capacity_zero_counterexample:
  "queueUpdate (new_OfflineManager False 0) ''a'' (1::nat) 10 = None \<and>
   queueUpdate_all (new_OfflineManager False 0) [(''a'', 1::nat, 10)] = None"
  by (simp add: queueUpdate_def new_OfflineManager_def shift_while_full_diverges)

subsection \<open>Replay on reconnect\<close>




section \<open>Properties of the batch manager\<close>








text \<open>
  What the catch clause of processBatch writes: after \<open>requeue\<close> every entry of the batch
  is in the map again, over whatever the map held for its key.
\<close>

lemma requeue_map_of:
  "distinct (map fst updates) \<Longrightarrow> map_of (requeue updates m) = map_of m ++ map_of updates"
proof (induction updates arbitrary: m)
  case Nil
  then show ?case by (simp add: requeue_def)
next
  case (Cons u us)
  obtain k d where u: "u = (k, d)" by (cases u)
  have nk: "k \<notin> dom (map_of us)" using Cons.prems u by (auto simp: dom_map_of_conv_image_fst)
  have "map_of (requeue (u # us) m) = map_of (requeue us (AList.update k d m))"
    by (simp add: requeue_def u)
  also have "\<dots> = map_of (AList.update k d m) ++ map_of us" using Cons by simp
  also have "\<dots> = (map_of m)(k \<mapsto> d) ++ map_of us" by (simp add: update_conv')
  also have "\<dots> = map_of m ++ map_of (u # us)"
    using nk unfolding u by (auto simp: map_add_def fun_eq_iff split: option.splits)
  finally show ?case .
qed



section \<open>Properties of binary64 rounding\<close>

text \<open>The exponent \<open>ilog2\<close> finds is the binary order of magnitude.\<close>

lemma ilog2_bounds:
  assumes "0 < q"
  shows "2 powi ilog2 q \<le> q \<and> q < 2 powi (ilog2 q + 1)"
proof (cases "1 \<le> q")
  case True
  define b where "b = bitlen \<lfloor>q\<rfloor>"
  have pos: "0 < \<lfloor>q\<rfloor>" using True by linarith
  from bitlen_bounds[OF pos] have lo: "2 ^ nat (b - 1) \<le> \<lfloor>q\<rfloor>" and hi: "\<lfloor>q\<rfloor> < 2 ^ nat b"
    by (simp_all add: b_def)
  have b1: "1 \<le> b" using pos bitlen_eq_zero_iff[of "\<lfloor>q\<rfloor>"] bitlen_nonneg[of "\<lfloor>q\<rfloor>"]
    by (simp add: b_def)
  have l: "(2::rat) ^ nat (b - 1) \<le> q" using lo by (simp add: le_floor_iff)
  have h: "q < 2 ^ nat b" using hi by (simp add: floor_less_iff)
  have i: "ilog2 q = b - 1" using True by (simp add: ilog2_def b_def)
  show ?thesis unfolding i using l h b1 by (simp add: power_int_def)
next
  case False
  define t where "t = 1 / q"
  define b where "b = bitlen (\<lceil>t\<rceil> - 1)"
  have t1: "1 < t" using False assms by (simp add: t_def)
  then have pos: "0 < \<lceil>t\<rceil> - 1" by linarith
  from bitlen_bounds[OF pos] have lo: "2 ^ nat (b - 1) \<le> \<lceil>t\<rceil> - 1" and hi: "\<lceil>t\<rceil> - 1 < 2 ^ nat b"
    by (simp_all add: b_def)
  have b1: "1 \<le> b" using pos bitlen_eq_zero_iff[of "\<lceil>t\<rceil> - 1"] bitlen_nonneg[of "\<lceil>t\<rceil> - 1"]
    by (simp add: b_def)
  have "\<lceil>t\<rceil> \<le> 2 ^ nat b" using hi by simp
  then have h: "t \<le> 2 ^ nat b" by (simp add: ceiling_le_iff)
  have "2 ^ nat (b - 1) < \<lceil>t\<rceil>" using lo by simp
  then have l: "2 ^ nat (b - 1) < t" by (simp add: less_ceiling_iff)
  have i: "ilog2 q = - b" using False by (simp add: ilog2_def b_def t_def)
  have q: "q = 1 / t" using assms by (simp add: t_def)
  have A: "2 powi (- b) \<le> q"
  proof -
    have "2 powi (- b) = 1 / (2::rat) ^ nat b"
      using b1 by (simp add: power_int_def power_one_over)
    also have "\<dots> \<le> 1 / t" using h t1 by (intro divide_left_mono) simp_all
    finally show ?thesis using q by simp
  qed
  have B: "q < 2 powi (- b + 1)"
  proof -
    have "1 / t < 1 / (2::rat) ^ nat (b - 1)" using l t1 by (intro divide_strict_left_mono) simp_all
    also have "\<dots> = 2 powi (- b + 1)"
    proof (cases "b = 1")
      case True then show ?thesis by simp
    next
      case False
      then have "- b + 1 < 0" "nat (- (- b + 1)) = nat (b - 1)" using b1 by simp_all
      then show ?thesis by (simp add: power_int_def power_one_over)
    qed
    finally show ?thesis using q by simp
  qed
  show ?thesis unfolding i using A B by simp
qed

lemma round_half_even_error: "\<bar>of_int (round_half_even t) - t\<bar> \<le> 1 / 2"
proof -
  have "of_int \<lfloor>t\<rfloor> \<le> t" "t < of_int \<lfloor>t\<rfloor> + 1" by linarith+
  then show ?thesis by (auto simp: round_half_even_def Let_def)
qed

lemma ilog2_less:
  assumes "0 < q" "q < 2 ^ n"
  shows "ilog2 q < int n"
proof (cases "1 \<le> q")
  case True
  have "\<lfloor>q\<rfloor> < 2 ^ n" using assms(2) by (simp add: floor_less_iff)
  then have "bitlen \<lfloor>q\<rfloor> \<le> int n" by (simp add: bitlen_le_iff_power)
  then show ?thesis using True by (simp add: ilog2_def)
next
  case False
  then have "1 < 1 / q" using assms(1) by simp
  then have "2 \<le> \<lceil>1 / q\<rceil>" by linarith
  then have "bitlen (\<lceil>1 / q\<rceil> - 1) \<noteq> 0" by (simp add: bitlen_eq_zero_iff)
  moreover have "0 \<le> bitlen (\<lceil>1 / q\<rceil> - 1)" by (rule bitlen_nonneg)
  ultimately have "ilog2 q < 0" using False by (simp add: ilog2_def)
  then show ?thesis by simp
qed

lemma binary64_near:
  assumes "\<bar>q\<bar> < 2 ^ 28"
  shows "\<exists>v. binary64 q = Num v \<and> \<bar>v - q\<bar> \<le> 1 / 2 ^ 26"
proof (cases "q = 0")
  case True
  then show ?thesis by (simp add: binary64_def)
next
  case False
  define e where "e = max (- 1074) (ilog2 \<bar>q\<bar> - 52)"
  define p :: rat where "p = 2 powi e"
  define v where "v = of_int (round_half_even (q / p)) * p"
  have "ilog2 \<bar>q\<bar> < int 28" using False assms by (intro ilog2_less) simp_all
  then have e: "e \<le> - 25" by (simp add: e_def)
  have p0: "0 < p" by (simp add: p_def zero_less_power_int)
  have "p \<le> 2 powi (- 25)" unfolding p_def using e by (intro power_int_increasing) simp_all
  then have p: "p \<le> 1 / 2 ^ 25" by (simp add: power_int_minus_divide)
  have "v - q = (of_int (round_half_even (q / p)) - q / p) * p"
    using p0 by (simp add: v_def algebra_simps)
  then have "\<bar>v - q\<bar> = \<bar>of_int (round_half_even (q / p)) - q / p\<bar> * p"
    using p0 by (simp add: abs_mult)
  also have "\<dots> \<le> 1 / 2 * p"
    using round_half_even_error[of "q / p"] p0 by (intro mult_right_mono) simp_all
  also have "\<dots> \<le> 1 / 2 ^ 26" using p by simp
  finally have near: "\<bar>v - q\<bar> \<le> 1 / 2 ^ 26" .
  have "\<bar>v\<bar> \<le> \<bar>v - q\<bar> + \<bar>q\<bar>" by linarith
  also have "\<dots> < 1 / 2 ^ 26 + 2 ^ 28" using near assms by linarith
  also have "\<dots> \<le> (2::rat) ^ 29" by simp
  finally have "\<bar>v\<bar> < 2 ^ 29" .
  moreover have "(2::rat) ^ 29 \<le> 2 ^ 1024" by (intro power_increasing) simp_all
  ultimately have "\<not> 2 ^ 1024 \<le> \<bar>v\<bar>" by linarith
  then have "binary64 q = Num v"
    using False unfolding binary64_def Let_def e_def[symmetric] p_def[symmetric] v_def[symmetric]
    by simp
  with near show ?thesis by blast
qed

lemma floor_half_stable:
  fixes v y :: rat
  assumes "\<bar>v - y\<bar> \<le> d" "0 \<le> d" "d \<le> 1 / 2" "d < \<bar>y - (of_int \<lfloor>y\<rfloor> + 1 / 2)\<bar>"
  shows "\<lfloor>v + 1 / 2\<rfloor> = \<lfloor>y + 1 / 2\<rfloor>"
proof -
  have fl: "of_int \<lfloor>y\<rfloor> \<le> y" "y < of_int \<lfloor>y\<rfloor> + 1" by linarith+
  show ?thesis
  proof (cases "y < of_int \<lfloor>y\<rfloor> + 1 / 2")
    case True
    then have "y + d < of_int \<lfloor>y\<rfloor> + 1 / 2" using assms(4) by linarith
    then have "\<lfloor>v + 1 / 2\<rfloor> = \<lfloor>y\<rfloor>" using assms(1-3) fl by (intro floor_unique) (simp; linarith)+
    moreover have "\<lfloor>y + 1 / 2\<rfloor> = \<lfloor>y\<rfloor>" using True fl by (intro floor_unique) (simp; linarith)+
    ultimately show ?thesis by simp
  next
    case False
    then have "of_int \<lfloor>y\<rfloor> + 1 / 2 < y - d" using assms(4) by linarith
    then have "\<lfloor>v + 1 / 2\<rfloor> = \<lfloor>y\<rfloor> + 1" using assms(1-3) fl by (intro floor_unique) (simp; linarith)+
    moreover have "\<lfloor>y + 1 / 2\<rfloor> = \<lfloor>y\<rfloor> + 1" using False fl by (intro floor_unique) (simp; linarith)+
    ultimately show ?thesis by simp
  qed
qed

lemma round_coordinate_safe:
  assumes "safe_coordinate x"
  shows "round_coordinate (Val (Num x)) = binary64 (round_decimals 6 x)"
proof -
  let ?y = "x * 1000000"
  from assms have r: "\<bar>?y\<bar> < 2 ^ 28" and h: "1 / 2 ^ 26 < \<bar>?y - (of_int \<lfloor>?y\<rfloor> + 1 / 2)\<bar>"
    by (simp_all add: safe_coordinate_def)
  from binary64_near[OF r] obtain v where v: "binary64 ?y = Num v" "\<bar>v - ?y\<bar> \<le> 1 / 2 ^ 26"
    by blast
  have fl: "\<lfloor>v + 1 / 2\<rfloor> = \<lfloor>?y + 1 / 2\<rfloor>"
    using v(2) h by (intro floor_half_stable[where d = "1 / 2 ^ 26"]) simp_all
  show ?thesis
    by (simp add: round_coordinate_def to_number_def v(1) fl round_decimals_def)
qed

lemma round_half_even_ge_floor: "\<lfloor>t\<rfloor> \<le> round_half_even t"
  by (simp add: round_half_even_def Let_def)

lemma binary64_overflow:
  assumes "2 ^ 1024 \<le> q"
  shows "binary64 q = PosInf"
proof -
  have q0: "0 < q" using assms by (rule less_le_trans[rotated]) simp
  define k where "k = ilog2 q"
  from ilog2_bounds[OF q0] have lo: "2 powi k \<le> q" and hi: "q < 2 powi (k + 1)"
    by (simp_all add: k_def)
  have "(2::rat) powi 1024 \<le> q" using assms by (simp add: power_int_def)
  then have "(2::rat) powi 1024 < 2 powi (k + 1)" using hi by linarith
  then have k: "1024 \<le> k"
  proof (rule contrapos_pp)
    assume "\<not> 1024 \<le> k"
    then have "k + 1 \<le> 1024" by simp
    then have "(2::rat) powi (k + 1) \<le> 2 powi 1024" by (intro power_int_increasing) simp_all
    then show "\<not> (2::rat) powi 1024 < 2 powi (k + 1)" by simp
  qed
  define e where "e = k - 52"
  define p :: rat where "p = 2 powi e"
  have p0: "0 < p" by (simp add: p_def zero_less_power_int)
  have emax: "max (- 1074) (ilog2 \<bar>q\<bar> - 52) = e" using q0 k by (simp add: e_def k_def)
  have pk: "(2::rat) powi 52 * p = 2 powi k"
    using power_int_add[of "2::rat" 52 "k - 52"] by (simp add: p_def e_def)
  then have "(2::rat) powi 52 * p \<le> q" using lo by simp
  then have "(2::rat) powi 52 \<le> q / p" using p0 by (simp only: pos_le_divide_eq)
  then have "(of_int (2 ^ 52) :: rat) \<le> q / p" by (simp add: power_int_def)
  then have "2 ^ 52 \<le> \<lfloor>q / p\<rfloor>" by (simp only: le_floor_iff)
  then have m: "2 ^ 52 \<le> round_half_even (q / p)"
    using round_half_even_ge_floor[of "q / p"] by linarith
  then have "(2::rat) powi 52 \<le> of_int (round_half_even (q / p))"
    by (simp add: power_int_def)
  then have A: "(2::rat) powi 52 * p \<le> of_int (round_half_even (q / p)) * p"
    using p0 by (intro mult_right_mono) simp_all
  have B: "(2::rat) powi 1024 \<le> 2 powi 52 * p" unfolding pk
    using k by (intro power_int_increasing) simp_all
  from B A have "(2::rat) powi 1024 \<le> of_int (round_half_even (q / p)) * p"
    by (rule order_trans)
  then have v: "2 ^ 1024 \<le> of_int (round_half_even (q / p)) * p"
    by (simp add: power_int_def)
  then have "2 ^ 1024 \<le> \<bar>of_int (round_half_even (q / p)) * p\<bar>" by linarith
  then show ?thesis using q0
    unfolding binary64_def Let_def emax p_def[symmetric] by simp
qed

lemma floor_rat_numeral_div: "\<lfloor>(numeral a :: rat) / numeral b\<rfloor> = numeral a div numeral b"
  using floor_divide_of_int_eq [of "numeral a" "numeral b", where 'a = rat] by simp

lemma floor_rat_one_div: "\<lfloor>(1 :: rat) / numeral b\<rfloor> = 1 div numeral b"
  using floor_divide_of_int_eq [of 1 "numeral b", where 'a = rat] by simp

lemma product_ilog2: "ilog2 \<bar>114099439829291890625 / 8796093022208\<bar> = 23"
  by code_simp

lemma product_significand: "round_half_even (114099439829291890625 / 16384) = 6964077138018304"
  by code_simp

lemma product_binary64: "binary64 (114099439829291890625 / 8796093022208) = Num (25943209 / 2)"
  unfolding binary64_def Let_def product_ilog2
  by (simp add: product_significand power_int_minus_divide)

lemma quotient_ilog2: "ilog2 \<bar>2594321 / 200000\<bar> = 3"
  by code_simp

lemma quotient_significand: "round_half_even (22819888845467680768 / 3125) = 7302364430549658"
  by code_simp

lemma quotient_binary64:
  "binary64 (2594321 / 200000) = Num (3651182215274829 / 281474976710656)"
  unfolding binary64_def Let_def quotient_ilog2
  by (simp add: quotient_significand power_int_minus_divide)

lemma decimal_ilog2: "ilog2 \<bar>3242901 / 250000\<bar> = 3"
  by code_simp

lemma decimal_significand: "round_half_even (114099435431245381632 / 15625) = 7302363867599704"
  by code_simp

lemma decimal_binary64:
  "binary64 (3242901 / 250000) = Num (912795483449963 / 70368744177664)"
  unfolding binary64_def Let_def decimal_ilog2
  by (simp add: decimal_significand power_int_minus_divide)

text \<open>
  The Number nearest to 12.9716045 lies below it, and its exact product with \<open>10^6\<close>
  lies below 12971604.5; the binary64 product is 12971604.5 itself, which \<open>Math.round\<close>
  takes up.  The code returns the Number for 12.971605, where the rounding of the
  decimal value gives 12.971604.
\<close>

lemma round_coordinate_product_tie:
  "round_coordinate (Val (Num (7302364149074681 / 562949953421312))) =
     Num (3651182215274829 / 281474976710656) \<and>
   binary64 (round_decimals 6 (7302364149074681 / 562949953421312)) =
     Num (912795483449963 / 70368744177664)"
  by (simp add: round_coordinate_def to_number_def round_decimals_def product_binary64
      quotient_binary64 decimal_binary64 floor_rat_numeral_div)

text \<open>An infinite coordinate stays infinite, an undefined one is NaN, a null one 0.\<close>

lemma round_coordinate_overflow:
  "round_coordinate (Val PosInf) = PosInf \<and> round_coordinate Undefined = NaN \<and>
   round_coordinate Null = Num 0"
  by (simp add: round_coordinate_def to_number_def binary64_def floor_rat_one_div)

text \<open>
  A coordinate of \<open>2^1010\<close>: its product with \<open>10^6\<close> is beyond the largest finite Number,
  and the code returns Infinity.
\<close>

lemma round_coordinate_large:
  "round_coordinate (Val (Num (2 ^ 1010))) = PosInf"
proof -
  have "(2::rat) ^ 1024 \<le> 2 ^ 1010 * 2 ^ 14" by (simp add: power_add[symmetric])
  also have "\<dots> \<le> 2 ^ 1010 * 1000000" by (intro mult_left_mono) simp_all
  finally have "binary64 (2 ^ 1010 * 1000000) = PosInf" by (rule binary64_overflow)
  then show ?thesis by (simp add: round_coordinate_def to_number_def)
qed

section \<open>Properties of the bus record codec\<close>

lemma round_or_null_finite:
  "x \<noteq> 0 \<Longrightarrow> round_or_null (Val (Num x)) = round_integer (Val (Num x))"
  by (simp add: round_or_null_def round_integer_def)

text \<open>
  C1 (as amended).  Let \<open>r\<close> be a bus record whose identifier is present, whose status has
  between 1 and 10 characters, and whose numeric fields are within safe precision: the
  coordinates are finite, below \<open>2^28 / 10^6\<close> in magnitude and, times \<open>10^6\<close>, farther than
  \<open>2^-26\<close> from every half-integer; speed and heading are each null or a finite number other
  than 0; the time is finite and not 0.  Then \<open>decompressBusData (compressBusData r)\<close> is
  \<open>r\<close>, on the seven fields busId, lat, lon, speed, heading, status and updatedAt, after
  rounding the coordinates to 6 decimal places and speed and heading to integers.
\<close>

theorem bus_codec_round_trip:
  assumes "status r = Val st" "st \<noteq> []" "length st \<le> 10"
    and "lat r = Val (Num la)" "safe_coordinate la"
    and "lon r = Val (Num lo)" "safe_coordinate lo"
    and "null_or_nonzero (speed r)" "null_or_nonzero (heading r)"
    and "updatedAt r = Val (Num u)" "u \<noteq> 0"
    and "spec_rounded r = Some d"
  shows "decompressBusData (compressBusData now (Some r)) = Some d"
proof -
  from assms(12) obtain b where b: "busId r = Val b"
    by (auto simp: spec_rounded_def split: nullable.splits)
  have s: "truncate_status (status r) = st" using assms(1-3) by (simp add: truncate_status_def)
  have la: "round_coordinate (lat r) = binary64 (round_decimals 6 la)"
    using assms(4,5) by (simp add: round_coordinate_safe)
  have lo: "round_coordinate (lon r) = binary64 (round_decimals 6 lo)"
    using assms(6,7) by (simp add: round_coordinate_safe)
  have sp: "round_or_null (speed r) = round_integer (speed r)"
    using assms(8)
    by (auto simp: null_or_nonzero_def round_or_null_def round_integer_def
        split: nullable.splits jsnum.splits)
  have hd: "round_or_null (heading r) = round_integer (heading r)"
    using assms(9)
    by (auto simp: null_or_nonzero_def round_or_null_def round_integer_def
        split: nullable.splits jsnum.splits)
  have u: "updated_or_now (updatedAt r) now = Num u"
    using assms(10,11) by (simp add: updated_or_now_def)
  have "decompressBusData (compressBusData now (Some r)) =
     Some \<lparr>d_busId = Val b,
           d_lat = binary64 (round_decimals 6 la), d_lon = binary64 (round_decimals 6 lo),
           d_speed = round_integer (speed r), d_heading = round_integer (heading r),
           d_status = st, d_updatedAt = Num u\<rparr>"
    by (simp add: decompressBusData_def compressBusData_def b s la lo sp hd u)
  also have "\<dots> = Some d"
    using assms(12) b assms(1,4,6,10) by (simp add: spec_rounded_def)
  finally show ?thesis .
qed

text \<open>
  A record with status "active", the latitude 12.345611572265625 and a speed of 12.5:
  the latitude comes back as the Number for 12.345612, the speed as 13, the rest as it
  was; the route name is not among the fields that come back.
\<close>

theorem bus_codec_round_trip_witness:
  "decompressBusData (compressBusData 2000 (Some
     \<lparr>busId = Val ''BUS001'', lat = Val (Num (404541 / 32768)), lon = Val (Num (309 / 4)),
      speed = Val (Num (25 / 2)), heading = Null, routeName = Val ''Route 5'',
      status = Val ''active'', updatedAt = Val (Num 1000)\<rparr>)) =
     Some \<lparr>d_busId = Val ''BUS001'',
           d_lat = binary64 (12345612 / 1000000), d_lon = binary64 (77250000 / 1000000),
           d_speed = Val (Num 13), d_heading = Null,
           d_status = ''active'', d_updatedAt = Num 1000\<rparr>"
proof -
  let ?r = "\<lparr>busId = Val ''BUS001'', lat = Val (Num (404541 / 32768)), lon = Val (Num (309 / 4)),
      speed = Val (Num (25 / 2)), heading = Null, routeName = Val ''Route 5'',
      status = Val ''active'', updatedAt = Val (Num 1000)\<rparr>"
  have sr: "spec_rounded ?r = Some \<lparr>d_busId = Val ''BUS001'',
           d_lat = binary64 (12345612 / 1000000), d_lon = binary64 (77250000 / 1000000),
           d_speed = Val (Num 13), d_heading = Null,
           d_status = ''active'', d_updatedAt = Num 1000\<rparr>"
    by (simp add: spec_rounded_def round_decimals_def round_integer_def floor_rat_numeral_div)
  have a: "safe_coordinate (404541 / 32768)"
    by (simp add: safe_coordinate_def floor_rat_numeral_div)
  have b: "safe_coordinate (309 / 4)"
    by (simp add: safe_coordinate_def)
  show ?thesis
    by (rule bus_codec_round_trip [where st = "''active''" and la = "404541 / 32768"
          and lo = "309 / 4" and u = 1000, OF _ _ _ _ a _ b _ _ _ _ sr])
      (simp_all add: null_or_nonzero_def)
qed

text \<open>
  C1 as stated fails for a status of 14 characters, well below 50, in a record whose
  numbers are within safe precision: \<open>substring(0, 10)\<close> cuts the status to its first 10
  characters, while the record the specification expects keeps it whole.
\<close>

theorem bus_codec_round_trip_counterexample:
  "strings_at_most 50
     \<lparr>busId = Val ''BUS001'', lat = Val (Num (25 / 2)), lon = Val (Num (309 / 4)),
      speed = Val (Num 10), heading = Val (Num 90), routeName = Null,
      status = Val ''out_of_service'', updatedAt = Val (Num 1000)\<rparr> \<and>
   safe_coordinate (25 / 2) \<and> safe_coordinate (309 / 4) \<and>
   spec_rounded
     \<lparr>busId = Val ''BUS001'', lat = Val (Num (25 / 2)), lon = Val (Num (309 / 4)),
      speed = Val (Num 10), heading = Val (Num 90), routeName = Null,
      status = Val ''out_of_service'', updatedAt = Val (Num 1000)\<rparr> =
     Some \<lparr>d_busId = Val ''BUS001'', d_lat = binary64 (25 / 2), d_lon = binary64 (309 / 4),
           d_speed = Val (Num 10), d_heading = Val (Num 90),
           d_status = ''out_of_service'', d_updatedAt = Num 1000\<rparr> \<and>
   decompressBusData (compressBusData 2000 (Some
     \<lparr>busId = Val ''BUS001'', lat = Val (Num (25 / 2)), lon = Val (Num (309 / 4)),
      speed = Val (Num 10), heading = Val (Num 90), routeName = Null,
      status = Val ''out_of_service'', updatedAt = Val (Num 1000)\<rparr>)) =
     Some \<lparr>d_busId = Val ''BUS001'', d_lat = binary64 (25 / 2), d_lon = binary64 (309 / 4),
           d_speed = Val (Num 10), d_heading = Val (Num 90),
           d_status = ''out_of_ser'', d_updatedAt = Num 1000\<rparr> \<and>
   decompressBusData (compressBusData 2000 (Some
     \<lparr>busId = Val ''BUS001'', lat = Val (Num (25 / 2)), lon = Val (Num (309 / 4)),
      speed = Val (Num 10), heading = Val (Num 90), routeName = Null,
      status = Val ''out_of_service'', updatedAt = Val (Num 1000)\<rparr>)) \<noteq>
   spec_rounded
     \<lparr>busId = Val ''BUS001'', lat = Val (Num (25 / 2)), lon = Val (Num (309 / 4)),
      speed = Val (Num 10), heading = Val (Num 90), routeName = Null,
      status = Val ''out_of_service'', updatedAt = Val (Num 1000)\<rparr>"
proof -
  have a: "safe_coordinate (25 / 2)" by (simp add: safe_coordinate_def)
  have b: "safe_coordinate (309 / 4)" by (simp add: safe_coordinate_def)
  have ra: "round_coordinate (Val (Num (25 / 2))) = binary64 (25 / 2)"
    using round_coordinate_safe[OF a] by (simp add: round_decimals_def floor_rat_numeral_div)
  have rb: "round_coordinate (Val (Num (309 / 4))) = binary64 (309 / 4)"
    using round_coordinate_safe[OF b] by (simp add: round_decimals_def floor_rat_numeral_div)
  show ?thesis
    using a b
    by (simp add: strings_at_most_def field_length_def spec_rounded_def round_decimals_def
        round_integer_def decompressBusData_def compressBusData_def ra rb
        round_or_null_def truncate_status_def updated_or_now_def floor_rat_numeral_div)
qed

text \<open>
  The fields that are falsy in JavaScript do not survive either: a speed of 0 and a
  heading that is NaN come back as null, an empty status as "unknown", and a time of 0
  as the time of the call.
\<close>

lemma bus_codec_falsy_fields:
  "decompressBusData (compressBusData 2000 (Some
     \<lparr>busId = Val ''BUS001'', lat = Null, lon = Undefined,
      speed = Val (Num 0), heading = Val NaN, routeName = Null,
      status = Val '''', updatedAt = Val (Num 0)\<rparr>)) =
     Some \<lparr>d_busId = Val ''BUS001'', d_lat = Num 0, d_lon = NaN,
           d_speed = Null, d_heading = Null,
           d_status = ''unknown'', d_updatedAt = Num 2000\<rparr>"
  by (simp add: decompressBusData_def compressBusData_def round_coordinate_def to_number_def
      round_or_null_def truncate_status_def updated_or_now_def binary64_def floor_rat_one_div)

end
